theory Spec2Isabelle
  imports Main
begin

unbundle bit_operations_syntax

section \<open>Errors\<close>

text \<open>
  Every validation failure of \<^verbatim>\<open>soc.py\<close> is \<^verbatim>\<open>logger.error(...)\<close> followed by
  \<^verbatim>\<open>raise SoCError()\<close>. The exception itself carries no data, so the model tags it with
  the message that was logged just before the raise. The remaining constructors are the
  exceptions the Python interpreter raises on its own in the modelled code.
\<close>

datatype log_msg =
    RegionAlreadyDeclared
  | IORegionOverlap string string
  | RegionInIOCantBeCached
  | RegionNotInIOMustBeCached
  | RegionOverlap string string
  | NotSupportedRegion
  | NotEnoughAddressSpace
  | OriginNotAligned
  | OnlyOneRegionWhenDisablingDecoder
  | LocNameAlreadyUsed
  | LocAlreadyUsed
  | LocShouldBePositive
  | LocHigherThanMaximum
  | NotEnoughLocations
  | IRQNotSupported
  | UnsupportedIRQNumber
  | UnsupportedDataWidth
  | UnsupportedAddressWidth
  | UnsupportedAlignment
  | AlignmentBelowDataWidth
  | UnsupportedPaging
  | UnsupportedOrdering
  | UnsupportedBusStandard

datatype error =
    SoCError log_msg
  | TypeError
  | ValueError
  | KeyError
  | StopIteration
  | ZeroDivisionError

text \<open>A method that returns nothing either returns or raises; the object it was called on
  is handed back in both cases, with whatever was written to it before the raise.\<close>

datatype outcome = Returned | Raised error

section \<open>Python dictionaries\<close>

text \<open>A \<^verbatim>\<open>dict\<close> keeps insertion order: it is an association list with distinct keys.
  \<^verbatim>\<open>d[k] = v\<close> overwrites in place when the key is present and appends otherwise.\<close>

fun dict_set :: "('k \<times> 'v) list \<Rightarrow> 'k \<Rightarrow> 'v \<Rightarrow> ('k \<times> 'v) list" where
  "dict_set [] k v = [(k, v)]"
| "dict_set ((k', v') # kvs) k v =
     (if k' = k then (k, v) # kvs else (k', v') # dict_set kvs k v)"

definition keys :: "('k \<times> 'v) list \<Rightarrow> 'k list" where
  "keys d = map fst d"

definition values_of :: "('k \<times> 'v) list \<Rightarrow> 'v list" where
  "values_of d = map snd d"

text \<open>\<^verbatim>\<open>range(n)\<close>: the integers from 0 up to \<open>n - 1\<close>, empty when \<open>n \<le> 0\<close>.\<close>

definition py_range :: "int \<Rightarrow> int list" where
  "py_range n = [0..n - 1]"

section \<open>SoCLocHandler\<close>

record SoCLocHandler =
  locs :: "(string \<times> int) list"
  n_locs :: int

definition SoCLocHandler_init :: "int \<Rightarrow> SoCLocHandler" where
  "SoCLocHandler_init n = \<lparr>locs = [], n_locs = n\<rparr>"

text \<open>The \<^verbatim>\<open>for n in range(self.n_locs)\<close> loop of \<^verbatim>\<open>alloc\<close>, on the candidates that are left.\<close>

primrec alloc_scan :: "int list \<Rightarrow> int list \<Rightarrow> error + int" where
  "alloc_scan [] used = Inl (SoCError NotEnoughLocations)"
| "alloc_scan (n # ns) used = (if n \<notin> set used then Inr n else alloc_scan ns used)"

definition SoCLocHandler_alloc :: "string \<Rightarrow> 'a SoCLocHandler_scheme \<Rightarrow> error + int" where
  "SoCLocHandler_alloc name h = alloc_scan (py_range (n_locs h)) (values_of (locs h))"

text \<open>\<^verbatim>\<open>n in self.locs.values()\<close>: the stored values are integers, so \<^verbatim>\<open>None\<close> is never
  among them.\<close>

definition in_values :: "int option \<Rightarrow> (string \<times> int) list \<Rightarrow> bool" where
  "in_values n d = (case n of None \<Rightarrow> False | Some k \<Rightarrow> k \<in> set (values_of d))"

definition SoCLocHandler_add ::
  "string \<Rightarrow> int option \<Rightarrow> bool \<Rightarrow> 'a SoCLocHandler_scheme \<Rightarrow> outcome \<times> 'a SoCLocHandler_scheme"
where
  "SoCLocHandler_add name n use_loc_if_exists h =
     (if \<not> (use_loc_if_exists \<and> name \<in> set (keys (locs h))) then
        if name \<in> set (keys (locs h)) then (Raised (SoCError LocNameAlreadyUsed), h)
        else if in_values n (locs h) then (Raised (SoCError LocAlreadyUsed), h)
        else
          (case n of
             None \<Rightarrow>
               (case SoCLocHandler_alloc name h of
                  Inl e \<Rightarrow> (Raised e, h)
                | Inr k \<Rightarrow> (Returned, h\<lparr>locs := dict_set (locs h) name k\<rparr>))
           | Some k \<Rightarrow>
               if k < 0 then (Raised (SoCError LocShouldBePositive), h)
               else if k > n_locs h then (Raised (SoCError LocHigherThanMaximum), h)
               else (Returned, h\<lparr>locs := dict_set (locs h) name k\<rparr>))
      else (Returned, h))"

text \<open>A sequence of calls \<^verbatim>\<open>add(name)\<close> without a number, as the builder issues them; an
  exception ends the sequence.\<close>

fun add_names :: "string list \<Rightarrow> 'a SoCLocHandler_scheme \<Rightarrow> outcome \<times> 'a SoCLocHandler_scheme" where
  "add_names [] h = (Returned, h)"
| "add_names (name # names) h =
     (case SoCLocHandler_add name None False h of
        (Returned, h') \<Rightarrow> add_names names h'
      | (Raised e, h') \<Rightarrow> (Raised e, h'))"

text \<open>The loops \<^verbatim>\<open>for name, n in reserved.items(): self.add(name, n)\<close> of the constructors,
  parameterised by the \<^verbatim>\<open>add\<close> of the class at hand.\<close>

fun add_reserved ::
  "(string \<Rightarrow> int option \<Rightarrow> bool \<Rightarrow> 'h \<Rightarrow> outcome \<times> 'h) \<Rightarrow> (string \<times> int) list \<Rightarrow> 'h \<Rightarrow> outcome \<times> 'h"
where
  "add_reserved add_fn [] h = (Returned, h)"
| "add_reserved add_fn ((name, n) # rest) h =
     (case add_fn name (Some n) False h of
        (Returned, h') \<Rightarrow> add_reserved add_fn rest h'
      | (Raised e, h') \<Rightarrow> (Raised e, h'))"

section \<open>SoCCSRHandler\<close>

definition supported_data_width_csr :: "int list" where
  "supported_data_width_csr = [8, 32]"

definition supported_address_width_csr :: "nat list" where
  "supported_address_width_csr = [14, 15, 16, 17, 18]"

definition supported_alignment :: "int list" where
  "supported_alignment = [32]"

definition supported_paging :: "int list" where
  "supported_paging = [0x400, 0x800, 0x1000, 0x2000, 0x4000]"

definition supported_ordering :: "string list" where
  "supported_ordering = [''big'', ''little'']"

text \<open>
  \<^verbatim>\<open>SoCCSRHandler.__init__\<close>. The location count is computed first, by
  \<^verbatim>\<open>alignment//8*(2**address_width)//paging\<close> (left to right, a zero \<^verbatim>\<open>paging\<close> raising
  \<^verbatim>\<open>ZeroDivisionError\<close>), and the parameter checks follow in the order of the source.
  The address width is an exponent and is a natural number here. Of the object only the
  inherited \<^verbatim>\<open>SoCLocHandler\<close> part is kept: the other attributes are stored and never read
  by the location operations.
\<close>

definition SoCCSRHandler_init ::
  "int \<Rightarrow> nat \<Rightarrow> int \<Rightarrow> int \<Rightarrow> string \<Rightarrow> (string \<times> int) list \<Rightarrow> error + SoCLocHandler"
where
  "SoCCSRHandler_init data_width address_width alignment paging order reserved_csrs =
     (if paging = 0 then Inl ZeroDivisionError
      else
        let h = SoCLocHandler_init (alignment div 8 * (2 ^ address_width) div paging) in
        if data_width \<notin> set supported_data_width_csr then Inl (SoCError UnsupportedDataWidth)
        else if address_width \<notin> set supported_address_width_csr
          then Inl (SoCError UnsupportedAddressWidth)
        else if alignment \<notin> set supported_alignment then Inl (SoCError UnsupportedAlignment)
        else if data_width > alignment then Inl (SoCError AlignmentBelowDataWidth)
        else if paging \<notin> set supported_paging then Inl (SoCError UnsupportedPaging)
        else if order \<notin> set supported_ordering then Inl (SoCError UnsupportedOrdering)
        else
          (case add_reserved SoCLocHandler_add reserved_csrs h of
             (Returned, h') \<Rightarrow> Inr h'
           | (Raised e, h') \<Rightarrow> Inl e))"

section \<open>SoCIRQHandler\<close>

record SoCIRQHandler = SoCLocHandler +
  enabled :: bool

definition SoCIRQHandler_enable :: "SoCIRQHandler \<Rightarrow> SoCIRQHandler" where
  "SoCIRQHandler_enable h = h\<lparr>enabled := True\<rparr>"

definition SoCIRQHandler_add ::
  "string \<Rightarrow> int option \<Rightarrow> bool \<Rightarrow> SoCIRQHandler \<Rightarrow> outcome \<times> SoCIRQHandler"
where
  "SoCIRQHandler_add name n use_loc_if_exists h =
     (if enabled h then SoCLocHandler_add name n use_loc_if_exists h
      else (Raised (SoCError IRQNotSupported), h))"

text \<open>\<^verbatim>\<open>SoCIRQHandler.__init__\<close>: the flag is cleared before the count is checked and before
  the reserved interrupts are added through the handler's own \<^verbatim>\<open>add\<close>.\<close>

definition SoCIRQHandler_init :: "int \<Rightarrow> (string \<times> int) list \<Rightarrow> error + SoCIRQHandler" where
  "SoCIRQHandler_init n_irqs reserved_irqs =
     (let h = \<lparr>locs = [], n_locs = n_irqs, enabled = False\<rparr> in
      if n_irqs > 32 then Inl (SoCError UnsupportedIRQNumber)
      else
        (case add_reserved SoCIRQHandler_add reserved_irqs h of
           (Returned, h') \<Rightarrow> Inr h'
         | (Raised e, h') \<Rightarrow> Inl e))"

section \<open>SoCRegion\<close>

text \<open>\<^verbatim>\<open>int.bit_length()\<close> on the absolute value.\<close>

fun bit_length :: "nat \<Rightarrow> nat" where
  "bit_length n = (if n = 0 then 0 else Suc (bit_length (n div 2)))"

declare bit_length.simps [simp del]

text \<open>
  Modelled from the spec: \<^verbatim>\<open>log2_int\<close> is imported from the migen library, which is not
  among the sources. The spec gives \<open>size_pow2 = 2^ceil(log2(size))\<close>, the next power of two;
  the library computes the exponent as the bit length of \<open>n - 1\<close>, with 0 for \<open>n = 0\<close>, and
  with \<^verbatim>\<open>need_pow2\<close> set it raises \<^verbatim>\<open>ValueError\<close> when \<open>n\<close> is not that power of two.
\<close>

definition log2_ceil :: "int \<Rightarrow> nat" where
  "log2_ceil n = (if n = 0 then 0 else bit_length (nat \<bar>n - 1\<bar>))"

definition log2_int :: "int \<Rightarrow> bool \<Rightarrow> error + nat" where
  "log2_int n need_pow2 =
     (if n = 0 then Inr 0
      else if need_pow2 \<and> 2 ^ log2_ceil n \<noteq> n then Inl ValueError
      else Inr (log2_ceil n))"

text \<open>The attribute \<^verbatim>\<open>size\<close> is \<open>size_req\<close> here, the size as requested; \<^verbatim>\<open>type\<close> and the
  logger are left out.\<close>

record SoCRegion =
  origin :: "int option"
  decode :: bool
  size_req :: int
  size_pow2 :: int
  mode :: string
  cached :: bool
  linker :: bool

text \<open>\<^verbatim>\<open>SoCRegion.__init__(origin, size, mode, cached, linker, decode)\<close>.\<close>

definition SoCRegion_init ::
  "int option \<Rightarrow> int \<Rightarrow> string \<Rightarrow> bool \<Rightarrow> bool \<Rightarrow> bool \<Rightarrow> SoCRegion"
where
  "SoCRegion_init org sz md cach link dec =
     \<lparr>origin = org, decode = dec, size_req = sz, size_pow2 = 2 ^ log2_ceil sz,
      mode = md, cached = cach, linker = link\<rparr>"

text \<open>What \<^verbatim>\<open>add_region\<close> is handed: a \<^verbatim>\<open>SoCIORegion\<close>, a plain \<^verbatim>\<open>SoCRegion\<close>, or an object
  of another class.\<close>

datatype region_obj = IORegion SoCRegion | Region SoCRegion | OtherObject

section \<open>SoCBusHandler\<close>

text \<open>Bus interfaces are hardware descriptions; the model keeps a label for each.\<close>

type_synonym interface = string

text \<open>The decoder functions: \<^verbatim>\<open>lambda a: True\<close> and
  \<^verbatim>\<open>lambda a: a[k:] == v\<close>, the latter given by \<open>k\<close> and \<open>v\<close>.\<close>

datatype decoder = DecodeAlways | DecodeMatch nat int

text \<open>The interconnect objects, each with the bus standard that selected its class.\<close>

datatype interconnect_obj =
    InterconnectPointToPoint string interface interface
  | InterconnectShared string "interface list" "(decoder \<times> interface) list" bool "int option"
  | Crossbar string "interface list" "(decoder \<times> interface) list" bool "int option"

record SoCBusHandler =
  standard :: string
  data_width :: nat
  address_width :: nat
  addressing :: string
  bursting :: bool
  interconnect :: string
  interconnect_register :: bool
  masters :: "(string \<times> interface) list"
  slaves :: "(string \<times> interface) list"
  regions :: "(string \<times> SoCRegion) list"
  io_regions :: "(string \<times> SoCRegion) list"
  io_regions_check :: bool
  timeout :: "int option"
  interconnect_obj :: "interconnect_obj option"

definition supported_standard :: "string list" where
  "supported_standard = [''wishbone'', ''axi-lite'', ''axi'']"

subsection \<open>check_regions_overlap\<close>

text \<open>The inner loop \<^verbatim>\<open>for n1 in list(regions.keys())[i+1:]\<close> for one \<open>(n0, r0)\<close>. Adding to
  or comparing with an origin that is \<^verbatim>\<open>None\<close> raises \<^verbatim>\<open>TypeError\<close>; a pair with a linker
  region is skipped before any origin is read.\<close>

fun overlap_with ::
  "bool \<Rightarrow> string \<times> SoCRegion \<Rightarrow> (string \<times> SoCRegion) list \<Rightarrow> error + (string \<times> string) option"
where
  "overlap_with check_linker (n0, r0) [] = Inr None"
| "overlap_with check_linker (n0, r0) ((n1, r1) # rest) =
     (if (linker r0 \<or> linker r1) \<and> \<not> check_linker then overlap_with check_linker (n0, r0) rest
      else
        (case (origin r0, origin r1) of
           (Some o0, Some o1) \<Rightarrow>
             if o0 \<ge> o1 + size_pow2 r1 then overlap_with check_linker (n0, r0) rest
             else if o1 \<ge> o0 + size_pow2 r0 then overlap_with check_linker (n0, r0) rest
             else Inr (Some (n0, n1))
         | _ \<Rightarrow> Inl TypeError))"

fun SoCBusHandler_check_regions_overlap ::
  "(string \<times> SoCRegion) list \<Rightarrow> bool \<Rightarrow> error + (string \<times> string) option"
where
  "SoCBusHandler_check_regions_overlap [] check_linker = Inr None"
| "SoCBusHandler_check_regions_overlap ((n0, r0) # rest) check_linker =
     (case overlap_with check_linker (n0, r0) rest of
        Inl e \<Rightarrow> Inl e
      | Inr (Some p) \<Rightarrow> Inr (Some p)
      | Inr None \<Rightarrow> SoCBusHandler_check_regions_overlap rest check_linker)"

subsection \<open>check_region_is_in, check_region_is_io\<close>

definition SoCBusHandler_check_region_is_in :: "SoCRegion \<Rightarrow> SoCRegion \<Rightarrow> error + bool" where
  "SoCBusHandler_check_region_is_in region container =
     (case (origin region, origin container) of
        (Some ro, Some co) \<Rightarrow>
          Inr (ro \<ge> co \<and> ro + size_req region \<le> co + size_req container)
      | _ \<Rightarrow> Inl TypeError)"

fun is_io_loop :: "SoCRegion \<Rightarrow> (string \<times> SoCRegion) list \<Rightarrow> bool \<Rightarrow> error + bool" where
  "is_io_loop region [] is_io = Inr is_io"
| "is_io_loop region ((n, io_region) # rest) is_io =
     (case SoCBusHandler_check_region_is_in region io_region of
        Inl e \<Rightarrow> Inl e
      | Inr is_in \<Rightarrow> is_io_loop region rest (if is_in then True else is_io))"

definition SoCBusHandler_check_region_is_io :: "SoCRegion \<Rightarrow> SoCBusHandler \<Rightarrow> error + bool" where
  "SoCBusHandler_check_region_is_io region bus = is_io_loop region (io_regions bus) False"

subsection \<open>alloc_region\<close>

text \<open>The loop \<^verbatim>\<open>for _, allocated in self.regions.items()\<close>: does the candidate overlap one
  of the regions, each tested on the two-entry dictionary \<^verbatim>\<open>{"0": allocated, "1": candidate}\<close>.\<close>

fun overlaps_allocated :: "(string \<times> SoCRegion) list \<Rightarrow> SoCRegion \<Rightarrow> error + bool" where
  "overlaps_allocated [] candidate = Inr False"
| "overlaps_allocated ((n, allocated) # rest) candidate =
     (case SoCBusHandler_check_regions_overlap [(''0'', allocated), (''1'', candidate)] False of
        Inl e \<Rightarrow> Inl e
      | Inr (Some p) \<Rightarrow> Inr True
      | Inr None \<Rightarrow> overlaps_allocated rest candidate)"

text \<open>
  The \<^verbatim>\<open>while\<close> loop over one search region that ends at \<open>limit\<close>
  (\<^verbatim>\<open>search_region.origin + search_region.size_pow2\<close>). The result \<open>Inr None\<close> is the loop
  running out, \<open>Inr (Some candidate)\<close> the \<^verbatim>\<open>return\<close>. Nothing bounds the loop when the
  requested size is not positive (an overlapping candidate is retried at \<open>origin + size\<close>),
  so it is a partial function and \<open>None\<close> is the run that never ends.
\<close>

partial_function (option) alloc_while ::
  "(string \<times> SoCRegion) list \<Rightarrow> int \<Rightarrow> bool \<Rightarrow> int \<Rightarrow> int \<Rightarrow> (error + SoCRegion option) option"
where
  "alloc_while regs sz cach limit org =
     (if org + sz < limit then
        (if org mod 2 ^ log2_ceil sz \<noteq> 0 then
           alloc_while regs sz cach limit (org + (2 ^ log2_ceil sz - org mod 2 ^ log2_ceil sz))
         else
           (case overlaps_allocated regs (SoCRegion_init (Some org) sz ''rw'' cach False True) of
              Inl e \<Rightarrow> Some (Inl e)
            | Inr overlap \<Rightarrow>
                if overlap then alloc_while regs sz cach limit (org + sz)
                else Some (Inr (Some (SoCRegion_init (Some org) sz ''rw'' cach False True)))))
      else Some (Inr None))"

text \<open>The loop \<^verbatim>\<open>for _, search_region in search_regions.items()\<close> and the error after it.\<close>

fun alloc_search ::
  "(string \<times> SoCRegion) list \<Rightarrow> int \<Rightarrow> bool \<Rightarrow> (string \<times> SoCRegion) list \<Rightarrow> (error + SoCRegion) option"
where
  "alloc_search regs sz cach [] = Some (Inl (SoCError NotEnoughAddressSpace))"
| "alloc_search regs sz cach ((n, search_region) # rest) =
     (case origin search_region of
        None \<Rightarrow> Some (Inl TypeError)
      | Some so \<Rightarrow>
          (case alloc_while regs sz cach (so + size_pow2 search_region) so of
             None \<Rightarrow> None
           | Some (Inl e) \<Rightarrow> Some (Inl e)
           | Some (Inr (Some candidate)) \<Rightarrow> Some (Inr candidate)
           | Some (Inr None) \<Rightarrow> alloc_search regs sz cach rest))"

definition SoCBusHandler_alloc_region ::
  "string \<Rightarrow> int \<Rightarrow> bool \<Rightarrow> SoCBusHandler \<Rightarrow> (error + SoCRegion) option"
where
  "SoCBusHandler_alloc_region name sz cach bus =
     (let search_regions =
        (if cach = False then io_regions bus
         else [(''main'', SoCRegion_init (Some 0) (2 ^ address_width bus - 1) ''rw'' True False True)])
      in alloc_search (regions bus) sz cach search_regions)"

subsection \<open>add_region\<close>

text \<open>The block under \<^verbatim>\<open>if self.io_regions_check\<close>: the error it raises, if any.\<close>

definition io_regions_check_error :: "SoCRegion \<Rightarrow> SoCBusHandler \<Rightarrow> error option" where
  "io_regions_check_error region bus =
     (if io_regions_check bus then
        (case SoCBusHandler_check_region_is_io region bus of
           Inl e \<Rightarrow> Some e
         | Inr True \<Rightarrow> if cached region then Some (SoCError RegionInIOCantBeCached) else None
         | Inr False \<Rightarrow> if \<not> cached region then Some (SoCError RegionNotInIOMustBeCached) else None)
      else None)"

definition SoCBusHandler_add_region ::
  "string \<Rightarrow> region_obj \<Rightarrow> SoCBusHandler \<Rightarrow> (outcome \<times> SoCBusHandler) option"
where
  "SoCBusHandler_add_region name obj bus =
     (if name \<in> set (keys (regions bus)) \<or> name \<in> set (keys (io_regions bus))
      then Some (Raised (SoCError RegionAlreadyDeclared), bus)
      else
        (case obj of
           IORegion region \<Rightarrow>
             (let bus' = bus\<lparr>io_regions := dict_set (io_regions bus) name region\<rparr> in
              case SoCBusHandler_check_regions_overlap (io_regions bus') False of
                Inl e \<Rightarrow> Some (Raised e, bus')
              | Inr (Some (n0, n1)) \<Rightarrow> Some (Raised (SoCError (IORegionOverlap n0 n1)), bus')
              | Inr None \<Rightarrow> Some (Returned, bus'))
         | Region region \<Rightarrow>
             (case origin region of
                None \<Rightarrow>
                  (case SoCBusHandler_alloc_region name (size_req region) (cached region) bus of
                     None \<Rightarrow> None
                   | Some (Inl e) \<Rightarrow> Some (Raised e, bus)
                   | Some (Inr allocated) \<Rightarrow>
                       Some (Returned, bus\<lparr>regions := dict_set (regions bus) name allocated\<rparr>))
              | Some org \<Rightarrow>
                  (case io_regions_check_error region bus of
                     Some e \<Rightarrow> Some (Raised e, bus)
                   | None \<Rightarrow>
                       (let bus' = bus\<lparr>regions := dict_set (regions bus) name region\<rparr> in
                        case SoCBusHandler_check_regions_overlap (regions bus') False of
                          Inl e \<Rightarrow> Some (Raised e, bus')
                        | Inr (Some (n0, n1)) \<Rightarrow> Some (Raised (SoCError (RegionOverlap n0 n1)), bus')
                        | Inr None \<Rightarrow> Some (Returned, bus'))))
         | OtherObject \<Rightarrow> Some (Raised (SoCError NotSupportedRegion), bus)))"

subsection \<open>__init__\<close>

definition supported_data_width :: "nat list" where
  "supported_data_width = [32, 64, 128, 256, 512]"

definition supported_address_width :: "nat list" where
  "supported_address_width = [32, 64]"

text \<open>An entry of \<^verbatim>\<open>reserved_regions\<close> is an origin (an \<^verbatim>\<open>int\<close>) or a region object.\<close>

datatype reserved = ReservedOrigin int | ReservedRegion region_obj

fun add_reserved_regions ::
  "(string \<times> reserved) list \<Rightarrow> SoCBusHandler \<Rightarrow> (outcome \<times> SoCBusHandler) option"
where
  "add_reserved_regions [] bus = Some (Returned, bus)"
| "add_reserved_regions ((name, r) # rest) bus =
     (let obj =
        (case r of
           ReservedOrigin org \<Rightarrow> Region (SoCRegion_init (Some org) 0x1000000 ''rw'' True False True)
         | ReservedRegion obj \<Rightarrow> obj)
      in case SoCBusHandler_add_region name obj bus of
           None \<Rightarrow> None
         | Some (Returned, bus') \<Rightarrow> add_reserved_regions rest bus'
         | Some (Raised e, bus') \<Rightarrow> Some (Raised e, bus'))"

text \<open>\<^verbatim>\<open>SoCBusHandler.__init__\<close>; a raise in the constructor leaves no object behind. Widths
  are natural numbers here.\<close>

definition SoCBusHandler_init ::
  "string \<Rightarrow> nat \<Rightarrow> nat \<Rightarrow> int option \<Rightarrow> bool \<Rightarrow> string \<Rightarrow> bool \<Rightarrow> (string \<times> reserved) list
   \<Rightarrow> (error + SoCBusHandler) option"
where
  "SoCBusHandler_init std dw aw tmo burst icon icon_reg reserved_regions =
     (if std \<notin> set supported_standard then Some (Inl (SoCError UnsupportedBusStandard))
      else if dw \<notin> set supported_data_width then Some (Inl (SoCError UnsupportedDataWidth))
      else if aw \<notin> set supported_address_width then Some (Inl (SoCError UnsupportedAddressWidth))
      else
        (case add_reserved_regions reserved_regions
                \<lparr>standard = std, data_width = dw, address_width = aw,
                 addressing = (if std = ''wishbone'' then ''word'' else ''byte''),
                 bursting = burst, interconnect = icon, interconnect_register = icon_reg,
                 masters = [], slaves = [], regions = [], io_regions = [],
                 io_regions_check = True, timeout = tmo, interconnect_obj = None\<rparr> of
           None \<Rightarrow> None
         | Some (Returned, bus) \<Rightarrow> Some (Inr bus)
         | Some (Raised e, bus) \<Rightarrow> Some (Inl e)))"

subsection \<open>Sequences of calls\<close>

text \<open>What the builder does to the regions of a bus handler: \<^verbatim>\<open>add_region\<close>,
  \<^verbatim>\<open>alloc_region\<close> (which only reads the handler), and the assignment to
  \<^verbatim>\<open>io_regions_check\<close>. A sequence runs until a call raises.\<close>

datatype bus_op =
    AddRegion string region_obj
  | AllocRegion string int bool
  | SetIORegionsCheck bool

fun run_ops :: "bus_op list \<Rightarrow> SoCBusHandler \<Rightarrow> (outcome \<times> SoCBusHandler) option" where
  "run_ops [] bus = Some (Returned, bus)"
| "run_ops (AddRegion name obj # ops) bus =
     (case SoCBusHandler_add_region name obj bus of
        None \<Rightarrow> None
      | Some (Returned, bus') \<Rightarrow> run_ops ops bus'
      | Some (Raised e, bus') \<Rightarrow> Some (Raised e, bus'))"
| "run_ops (AllocRegion name sz cach # ops) bus =
     (case SoCBusHandler_alloc_region name sz cach bus of
        None \<Rightarrow> None
      | Some (Inl e) \<Rightarrow> Some (Raised e, bus)
      | Some (Inr candidate) \<Rightarrow> run_ops ops bus)"
| "run_ops (SetIORegionsCheck b # ops) bus = run_ops ops (bus\<lparr>io_regions_check := b\<rparr>)"

subsection \<open>decoder\<close>

text \<open>
  \<^verbatim>\<open>SoCRegion.decoder(bus)\<close>. \<^verbatim>\<open>int(math.log2(bus.data_width//8))\<close> is the bit length
  minus one (\<^verbatim>\<open>math.log2\<close> raises \<^verbatim>\<open>ValueError\<close> at 0); \<^verbatim>\<open>>>\<close> is \<open>drop_bit\<close>. The
  \<^verbatim>\<open>log2_int\<close> inside the returned function is evaluated here.
\<close>

definition SoCRegion_decoder :: "SoCRegion \<Rightarrow> SoCBusHandler \<Rightarrow> error + decoder" where
  "SoCRegion_decoder region bus =
     (case origin region of
        None \<Rightarrow> Inl TypeError
      | Some org \<Rightarrow>
          if (org AND (size_pow2 region - 1)) \<noteq> 0 then Inl (SoCError OriginNotAligned)
          else if \<not> decode region \<or> (org = 0 \<and> size_pow2 region = 2 ^ address_width bus)
            then Inr DecodeAlways
          else if data_width bus div 8 = 0 then Inl ValueError
          else
            (let shift = bit_length (data_width bus div 8) - 1;
                 org_w = drop_bit shift org;
                 sz_w = drop_bit shift (size_pow2 region)
             in case log2_int sz_w True of
                  Inl e \<Rightarrow> Inl e
                | Inr k \<Rightarrow> Inr (DecodeMatch k (drop_bit k org_w))))"

subsection \<open>do_finalize\<close>

text \<open>The test for the point-to-point interconnect. \<^verbatim>\<open>and\<close> evaluates the third operand
  only when the two lengths are 1; \<^verbatim>\<open>next(iter(...))\<close> on an empty dictionary raises
  \<^verbatim>\<open>StopIteration\<close>. The region that is read is the first one of \<^verbatim>\<open>self.regions\<close>.\<close>

definition point_to_point_test :: "SoCBusHandler \<Rightarrow> error + bool" where
  "point_to_point_test bus =
     (if length (masters bus) = 1 \<and> length (slaves bus) = 1 then
        (case values_of (regions bus) of
           [] \<Rightarrow> Inl StopIteration
         | region # _ \<Rightarrow> Inr (origin region = Some 0))
      else Inr False)"

text \<open>\<^verbatim>\<open>[(self.regions[n].decoder(self), s) for n, s in self.slaves.items()]\<close>.\<close>

fun slave_decoders ::
  "SoCBusHandler \<Rightarrow> (string \<times> interface) list \<Rightarrow> error + (decoder \<times> interface) list"
where
  "slave_decoders bus [] = Inr []"
| "slave_decoders bus ((n, s) # rest) =
     (case map_of (regions bus) n of
        None \<Rightarrow> Inl KeyError
      | Some region \<Rightarrow>
          (case SoCRegion_decoder region bus of
             Inl e \<Rightarrow> Inl e
           | Inr d \<Rightarrow>
               (case slave_decoders bus rest of
                  Inl e \<Rightarrow> Inl e
                | Inr ds \<Rightarrow> Inr ((d, s) # ds))))"

definition SoCBusHandler_do_finalize :: "SoCBusHandler \<Rightarrow> outcome \<times> SoCBusHandler" where
  "SoCBusHandler_do_finalize bus =
     (if standard bus \<notin> set supported_standard then (Raised KeyError, bus)
      else
        (let bus' = bus\<lparr>interconnect_obj := None\<rparr> in
         if length (masters bus) \<noteq> 0 \<and> length (slaves bus) \<noteq> 0 then
           (case point_to_point_test bus of
              Inl e \<Rightarrow> (Raised e, bus')
            | Inr p2p \<Rightarrow>
                if p2p then
                  (case (values_of (masters bus), values_of (slaves bus)) of
                     (master # _, slave # _) \<Rightarrow>
                       (Returned, bus'\<lparr>interconnect_obj :=
                          Some (InterconnectPointToPoint (standard bus) master slave)\<rparr>)
                   | _ \<Rightarrow> (Raised StopIteration, bus'))
                else if length (regions bus) > 1 \<and>
                        list_ex (\<lambda>region. decode region = False) (values_of (regions bus))
                  then (Raised (SoCError OnlyOneRegionWhenDisablingDecoder), bus')
                else if interconnect bus \<noteq> ''shared'' \<and> interconnect bus \<noteq> ''crossbar''
                  then (Raised KeyError, bus')
                else
                  (case slave_decoders bus (slaves bus) of
                     Inl e \<Rightarrow> (Raised e, bus')
                   | Inr ds \<Rightarrow>
                       (Returned, bus'\<lparr>interconnect_obj :=
                          Some ((if interconnect bus = ''shared'' then InterconnectShared else Crossbar)
                                  (standard bus) (values_of (masters bus)) ds
                                  (interconnect_register bus) (timeout bus))\<rparr>)))
         else (Returned, bus')))"

subsection \<open>Regions that do not overlap\<close>

text \<open>Two regions that \<^verbatim>\<open>check_regions_overlap\<close> lets pass as a pair: one of them is a
  linker region, or both origins are set and one region ends where the other begins or
  before.\<close>

definition regions_apart :: "SoCRegion \<Rightarrow> SoCRegion \<Rightarrow> bool" where
  "regions_apart r0 r1 =
     (linker r0 \<or> linker r1 \<or>
      (case (origin r0, origin r1) of
         (Some o0, Some o1) \<Rightarrow> o0 \<ge> o1 + size_pow2 r1 \<or> o1 \<ge> o0 + size_pow2 r0
       | _ \<Rightarrow> False))"

definition all_apart :: "(string \<times> SoCRegion) list \<Rightarrow> bool" where
  "all_apart regs = sorted_wrt (\<lambda>a b. regions_apart (snd a) (snd b)) regs"

text \<open>What every sequence of successful calls keeps true of \<^verbatim>\<open>self.regions\<close>.\<close>

definition regions_inv :: "(string \<times> SoCRegion) list \<Rightarrow> bool" where
  "regions_inv regs = (distinct (keys regs) \<and> all_apart regs)"

section \<open>Example handlers\<close>

definition locs_demo1 :: SoCLocHandler where
  "locs_demo1 = \<lparr>locs = [(''uart'', 0), (''timer0'', 2)], n_locs = 4\<rparr>"

definition locs_demo2 :: SoCLocHandler where
  "locs_demo2 = \<lparr>locs = [(''ctrl'', 2), (''leds'', 0)], n_locs = 4\<rparr>"

definition irq_demo :: SoCIRQHandler where
  "irq_demo = \<lparr>locs = [], n_locs = 32, enabled = False\<rparr>"

definition csr_names :: "string list" where
  "csr_names = [''csr00'', ''csr01'', ''csr02'', ''csr03'', ''csr04'', ''csr05'', ''csr06'', ''csr07'', ''csr08'', ''csr09'', ''csr10'', ''csr11'', ''csr12'', ''csr13'', ''csr14'', ''csr15'', ''csr16'', ''csr17'', ''csr18'', ''csr19'', ''csr20'', ''csr21'', ''csr22'', ''csr23'', ''csr24'', ''csr25'', ''csr26'', ''csr27'', ''csr28'', ''csr29'', ''csr30'', ''csr31'']"

definition bus_fresh :: SoCBusHandler where
  "bus_fresh = \<lparr>standard = ''wishbone'', data_width = 32, address_width = 32,
     addressing = ''word'', bursting = False, interconnect = ''shared'',
     interconnect_register = True, masters = [], slaves = [], regions = [], io_regions = [],
     io_regions_check = True, timeout = Some 1000000, interconnect_obj = None\<rparr>"

definition rom_region :: SoCRegion where
  "rom_region = SoCRegion_init (Some 0) 0x2000 ''rw'' True False True"

definition ram_request :: SoCRegion where
  "ram_request = SoCRegion_init None 0x10000 ''rw'' True False True"

definition ram_region :: SoCRegion where
  "ram_region = SoCRegion_init (Some 0x10000) 0x10000 ''rw'' True False True"

definition scenario_a :: "bus_op list" where
  "scenario_a = [AddRegion ''rom'' (Region rom_region), AllocRegion ''probe'' 0x10000 True,
                 AddRegion ''ram'' (Region ram_request)]"

definition bus_a :: SoCBusHandler where
  "bus_a = bus_fresh\<lparr>regions := [(''rom'', rom_region), (''ram'', ram_region)]\<rparr>"

section \<open>Dictionary facts\<close>

lemma dict_set_fresh: "k \<notin> set (keys d) \<Longrightarrow> dict_set d k v = d @ [(k, v)]"
  by (induction d) (auto simp: keys_def)

section \<open>The location scan\<close>

lemma alloc_scan_Cons_upto:
  "i \<le> j \<Longrightarrow> alloc_scan [i..j] used = (if i \<notin> set used then Inr i else alloc_scan [i + 1..j] used)"
  by (simp add: upto_rec1)

lemma alloc_scan_upto_Inr:
  "alloc_scan [a..b] used = Inr n \<longleftrightarrow>
     a \<le> n \<and> n \<le> b \<and> n \<notin> set used \<and> (\<forall>m. a \<le> m \<and> m < n \<longrightarrow> m \<in> set used)"
proof (induction a b rule: upto.induct)
  case (1 i j)
  show ?case
  proof (cases "i \<le> j")
    case False
    then show ?thesis by simp
  next
    case True
    show ?thesis
    proof (cases "i \<in> set used")
      case False
      have "alloc_scan [i..j] used = Inr i"
        using alloc_scan_Cons_upto[OF True] False by simp
      moreover have "(i \<le> n \<and> n \<le> j \<and> n \<notin> set used \<and> (\<forall>m. i \<le> m \<and> m < n \<longrightarrow> m \<in> set used)) \<longleftrightarrow> n = i"
      proof
        assume h: "i \<le> n \<and> n \<le> j \<and> n \<notin> set used \<and> (\<forall>m. i \<le> m \<and> m < n \<longrightarrow> m \<in> set used)"
        show "n = i"
        proof (rule ccontr)
          assume "n \<noteq> i"
          with h have "i < n" by simp
          with h have "i \<in> set used" by blast
          with False show False by simp
        qed
      next
        assume "n = i"
        then show "i \<le> n \<and> n \<le> j \<and> n \<notin> set used \<and> (\<forall>m. i \<le> m \<and> m < n \<longrightarrow> m \<in> set used)"
          using True False by auto
      qed
      ultimately show ?thesis by auto
    next
      case inused: True
      have step: "alloc_scan [i..j] used = alloc_scan [i + 1..j] used"
        using alloc_scan_Cons_upto[OF True] inused by simp
      have ih: "alloc_scan [i + 1..j] used = Inr n \<longleftrightarrow>
         i + 1 \<le> n \<and> n \<le> j \<and> n \<notin> set used \<and> (\<forall>m. i + 1 \<le> m \<and> m < n \<longrightarrow> m \<in> set used)"
        using "1.IH"[OF True] .
      have "(\<forall>m. i + 1 \<le> m \<and> m < n \<longrightarrow> m \<in> set used) \<longleftrightarrow> (\<forall>m. i \<le> m \<and> m < n \<longrightarrow> m \<in> set used)"
      proof
        assume a: "\<forall>m. i + 1 \<le> m \<and> m < n \<longrightarrow> m \<in> set used"
        show "\<forall>m. i \<le> m \<and> m < n \<longrightarrow> m \<in> set used"
        proof (intro allI impI)
          fix m assume "i \<le> m \<and> m < n"
          then have "m = i \<or> (i + 1 \<le> m \<and> m < n)" by arith
          then show "m \<in> set used" using a inused by blast
        qed
      next
        assume a: "\<forall>m. i \<le> m \<and> m < n \<longrightarrow> m \<in> set used"
        show "\<forall>m. i + 1 \<le> m \<and> m < n \<longrightarrow> m \<in> set used"
        proof (intro allI impI)
          fix m assume "i + 1 \<le> m \<and> m < n"
          then have "i \<le> m \<and> m < n" by arith
          then show "m \<in> set used" using a by blast
        qed
      qed
      moreover have "n \<notin> set used \<Longrightarrow> i \<le> n \<Longrightarrow> i + 1 \<le> n"
        using inused by (cases "n = i") auto
      ultimately show ?thesis unfolding step ih by auto
    qed
  qed
qed


lemma alloc_scan_upto_Inl:
  "alloc_scan [a..b] used = Inl e \<longleftrightarrow>
     e = SoCError NotEnoughLocations \<and> (\<forall>m. a \<le> m \<and> m \<le> b \<longrightarrow> m \<in> set used)"
proof (induction a b rule: upto.induct)
  case (1 i j)
  show ?case
  proof (cases "i \<le> j")
    case False
    then show ?thesis by auto
  next
    case True
    show ?thesis
    proof (cases "i \<in> set used")
      case False
      have "alloc_scan [i..j] used = Inr i"
        using alloc_scan_Cons_upto[OF True] False by simp
      moreover have "\<not> (\<forall>m. i \<le> m \<and> m \<le> j \<longrightarrow> m \<in> set used)"
        using True False by blast
      ultimately show ?thesis by simp
    next
      case inused: True
      have step: "alloc_scan [i..j] used = alloc_scan [i + 1..j] used"
        using alloc_scan_Cons_upto[OF True] inused by simp
      have ih: "alloc_scan [i + 1..j] used = Inl e \<longleftrightarrow>
         e = SoCError NotEnoughLocations \<and> (\<forall>m. i + 1 \<le> m \<and> m \<le> j \<longrightarrow> m \<in> set used)"
        using "1.IH"[OF True] .
      have "(\<forall>m. i + 1 \<le> m \<and> m \<le> j \<longrightarrow> m \<in> set used) \<longleftrightarrow> (\<forall>m. i \<le> m \<and> m \<le> j \<longrightarrow> m \<in> set used)"
      proof
        assume a: "\<forall>m. i + 1 \<le> m \<and> m \<le> j \<longrightarrow> m \<in> set used"
        show "\<forall>m. i \<le> m \<and> m \<le> j \<longrightarrow> m \<in> set used"
        proof (intro allI impI)
          fix m assume "i \<le> m \<and> m \<le> j"
          then have "m = i \<or> (i + 1 \<le> m \<and> m \<le> j)" by arith
          then show "m \<in> set used" using a inused by blast
        qed
      next
        assume a: "\<forall>m. i \<le> m \<and> m \<le> j \<longrightarrow> m \<in> set used"
        show "\<forall>m. i + 1 \<le> m \<and> m \<le> j \<longrightarrow> m \<in> set used"
        proof (intro allI impI)
          fix m assume "i + 1 \<le> m \<and> m \<le> j"
          then have "i \<le> m \<and> m \<le> j" by arith
          then show "m \<in> set used" using a by blast
        qed
      qed
      then show ?thesis unfolding step ih by simp
    qed
  qed
qed

section \<open>Claims about the location handlers\<close>

text \<open>
  C7. \<^verbatim>\<open>SoCLocHandler.alloc\<close> returns a number exactly when that number is the smallest
  integer of \<open>[0, n_locs)\<close> that is not among the assigned numbers, and its result is a
  function of the set of assigned numbers and of \<open>n_locs\<close> alone: two handlers with the
  same set of used numbers give the same result, whatever the names and the insertion order.
\<close>

theorem alloc_lowest_unused:
  "(SoCLocHandler_alloc name h = Inr n \<longleftrightarrow>
      0 \<le> n \<and> n < n_locs h \<and> n \<notin> set (values_of (locs h)) \<and>
      (\<forall>m. 0 \<le> m \<and> m < n \<longrightarrow> m \<in> set (values_of (locs h)))) \<and>
   (set (values_of (locs h)) = set (values_of (locs h')) \<and> n_locs h = n_locs h' \<longrightarrow>
      SoCLocHandler_alloc name h = SoCLocHandler_alloc name' h')"
proof (intro conjI impI)
  have "n \<le> n_locs h - 1 \<longleftrightarrow> n < n_locs h" by arith
  then show "SoCLocHandler_alloc name h = Inr n \<longleftrightarrow>
      0 \<le> n \<and> n < n_locs h \<and> n \<notin> set (values_of (locs h)) \<and>
      (\<forall>m. 0 \<le> m \<and> m < n \<longrightarrow> m \<in> set (values_of (locs h)))"
    unfolding SoCLocHandler_alloc_def py_range_def alloc_scan_upto_Inr by simp
next
  assume same: "set (values_of (locs h)) = set (values_of (locs h')) \<and> n_locs h = n_locs h'"
  show "SoCLocHandler_alloc name h = SoCLocHandler_alloc name' h'"
  proof (cases "alloc_scan [0..n_locs h - 1] (values_of (locs h))")
    case (Inl e)
    then have "alloc_scan [0..n_locs h' - 1] (values_of (locs h')) = Inl e"
      using same unfolding alloc_scan_upto_Inl by simp
    with Inl show ?thesis by (simp add: SoCLocHandler_alloc_def py_range_def)
  next
    case (Inr k)
    then have "alloc_scan [0..n_locs h' - 1] (values_of (locs h')) = Inr k"
      using same unfolding alloc_scan_upto_Inr by simp
    with Inr show ?thesis by (simp add: SoCLocHandler_alloc_def py_range_def)
  qed
qed

theorem alloc_lowest_unused_witness:
  "SoCLocHandler_alloc ''spi'' locs_demo1 = Inr 1 \<and>
   set (values_of (locs locs_demo1)) = set (values_of (locs locs_demo2)) \<and>
   n_locs locs_demo1 = n_locs locs_demo2 \<and>
   SoCLocHandler_alloc ''spi'' locs_demo1 = SoCLocHandler_alloc ''i2c'' locs_demo2"
  using alloc_lowest_unused[of "''spi''" locs_demo1 1 locs_demo2 "''i2c''"]
  by (auto simp: locs_demo1_def locs_demo2_def values_of_def)

text \<open>
  C6. With a name that is not yet a key and a number that is not yet assigned,
  \<^verbatim>\<open>add(name, n)\<close> succeeds exactly when \<open>0 \<le> n \<le> n_locs\<close> (the upper bound included) and
  then appends the pair; a negative number and a number above \<open>n_locs\<close> raise the two
  bounds errors and leave the handler as it was.
\<close>

theorem add_explicit_bounds:
  assumes "name \<notin> set (keys (locs h))" and "n \<notin> set (values_of (locs h))"
  shows "(fst (SoCLocHandler_add name (Some n) u h) = Returned \<longleftrightarrow> 0 \<le> n \<and> n \<le> n_locs h) \<and>
         (0 \<le> n \<and> n \<le> n_locs h \<longrightarrow>
            SoCLocHandler_add name (Some n) u h = (Returned, h\<lparr>locs := locs h @ [(name, n)]\<rparr>)) \<and>
         (n < 0 \<longrightarrow>
            SoCLocHandler_add name (Some n) u h = (Raised (SoCError LocShouldBePositive), h)) \<and>
         (0 \<le> n \<and> n > n_locs h \<longrightarrow>
            SoCLocHandler_add name (Some n) u h = (Raised (SoCError LocHigherThanMaximum), h))"
  using assms by (simp add: SoCLocHandler_add_def in_values_def dict_set_fresh)

theorem add_explicit_bounds_witness:
  "''spi'' \<notin> set (keys (locs locs_demo1)) \<and> 4 \<notin> set (values_of (locs locs_demo1)) \<and>
   5 \<notin> set (values_of (locs locs_demo1)) \<and> -1 \<notin> set (values_of (locs locs_demo1)) \<and>
   SoCLocHandler_add ''spi'' (Some 4) False locs_demo1 =
     (Returned, locs_demo1\<lparr>locs := locs locs_demo1 @ [(''spi'', 4)]\<rparr>) \<and>
   SoCLocHandler_add ''spi'' (Some 5) False locs_demo1 =
     (Raised (SoCError LocHigherThanMaximum), locs_demo1) \<and>
   SoCLocHandler_add ''spi'' (Some (-1)) False locs_demo1 =
     (Raised (SoCError LocShouldBePositive), locs_demo1)"
  using add_explicit_bounds[of "''spi''" locs_demo1 4 False]
    add_explicit_bounds[of "''spi''" locs_demo1 5 False]
    add_explicit_bounds[of "''spi''" locs_demo1 "-1" False]
  by (simp add: locs_demo1_def keys_def values_of_def)

section \<open>Filling a handler\<close>

lemma alloc_next_free:
  assumes "values_of (locs h) = [0..k - 1]" and "0 \<le> k" and "k < n_locs h"
  shows "SoCLocHandler_alloc name h = Inr k"
proof -
  have "\<forall>m. 0 \<le> m \<and> m < k \<longrightarrow> m \<in> set [0..k - 1]" by simp
  moreover have "k \<notin> set [0..k - 1]" by simp
  ultimately show ?thesis
    using assms unfolding SoCLocHandler_alloc_def py_range_def alloc_scan_upto_Inr by simp
qed

lemma alloc_full:
  assumes "values_of (locs h) = [0..n_locs h - 1]"
  shows "SoCLocHandler_alloc name h = Inl (SoCError NotEnoughLocations)"
  using assms unfolding SoCLocHandler_alloc_def py_range_def alloc_scan_upto_Inl by simp

lemma add_next_free:
  assumes "values_of (locs h) = [0..k - 1]" and "0 \<le> k" and "k < n_locs h"
    and "name \<notin> set (keys (locs h))"
  shows "SoCLocHandler_add name None u h = (Returned, h\<lparr>locs := locs h @ [(name, k)]\<rparr>)"
  using assms alloc_next_free[OF assms(1-3), of name]
  by (simp add: SoCLocHandler_add_def in_values_def dict_set_fresh)

lemma add_names_fresh:
  "distinct names \<Longrightarrow> set names \<inter> set (keys (locs h)) = {} \<Longrightarrow>
   values_of (locs h) = [0..k - 1] \<Longrightarrow> 0 \<le> k \<Longrightarrow> k + int (length names) \<le> n_locs h \<Longrightarrow>
   add_names names h =
     (Returned, h\<lparr>locs := locs h @ zip names [k..k + int (length names) - 1]\<rparr>)"
proof (induction names arbitrary: h k)
  case Nil
  then show ?case by simp
next
  case (Cons name names)
  let ?h' = "h\<lparr>locs := locs h @ [(name, k)]\<rparr>"
  have fresh: "name \<notin> set (keys (locs h))" using Cons.prems(2) by auto
  have lt: "k < n_locs h" using Cons.prems(5) by simp
  have step: "SoCLocHandler_add name None False h = (Returned, ?h')"
    using add_next_free[OF Cons.prems(3) Cons.prems(4) lt fresh] .
  have vals: "values_of (locs ?h') = [0..(k + 1) - 1]"
    using Cons.prems(3,4) by (simp add: values_of_def upto_rec2)
  have disj: "set names \<inter> set (keys (locs ?h')) = {}"
    using Cons.prems(1,2) by (auto simp: keys_def)
  have ih: "add_names names ?h' =
     (Returned, ?h'\<lparr>locs := locs ?h' @ zip names [k + 1..k + 1 + int (length names) - 1]\<rparr>)"
    using Cons.IH[of ?h' "k + 1"] Cons.prems(1,4,5) vals disj by simp
  have up: "[k..k + int (length (name # names)) - 1] = k # [k + 1..k + 1 + int (length names) - 1]"
    by (simp add: upto_rec1 add.commute add.left_commute)
  show ?case unfolding up using step ih by simp
qed

text \<open>
  C8. A CSR handler built with address width 14, paging \<open>0x800\<close> and alignment 32 has 32
  locations; adding 32 distinct names without a number succeeds, and one more name without a
  number raises the "Not enough Locations" error and changes nothing.
\<close>

theorem csr_capacity:
  assumes "distinct (names @ [extra])" and "length names = 32"
    and "dw \<in> set supported_data_width_csr" and "order \<in> set supported_ordering"
  shows "\<exists>h0 h. SoCCSRHandler_init dw 14 32 0x800 order [] = Inr h0 \<and> n_locs h0 = 32 \<and>
           add_names names h0 = (Returned, h) \<and> keys (locs h) = names \<and>
           SoCLocHandler_add extra None False h = (Raised (SoCError NotEnoughLocations), h)"
proof -
  let ?start = "SoCLocHandler_init 32"
  have init: "SoCCSRHandler_init dw 14 32 0x800 order [] = Inr ?start"
    using assms(3,4)
    by (auto simp: SoCCSRHandler_init_def supported_data_width_csr_def
        supported_address_width_csr_def supported_alignment_def supported_paging_def Let_def)
  let ?h = "?start\<lparr>locs := locs ?start @ zip names [0..0 + int (length names) - 1]\<rparr>"
  have run: "add_names names ?start = (Returned, ?h)"
    using assms(1,2) by (intro add_names_fresh) (simp_all add: SoCLocHandler_init_def keys_def values_of_def)
  have len: "length [0..(31::int)] = 32" by simp
  have ks: "keys (locs ?h) = names"
    using assms(2) len by (simp add: SoCLocHandler_init_def keys_def)
  have vs: "values_of (locs ?h) = [0..n_locs ?h - 1]"
    using assms(2) len by (simp add: SoCLocHandler_init_def values_of_def)
  have fresh: "extra \<notin> set (keys (locs ?h))" using assms(1) ks by simp
  have "SoCLocHandler_add extra None False ?h = (Raised (SoCError NotEnoughLocations), ?h)"
    using alloc_full[OF vs, of extra] fresh
    by (simp add: SoCLocHandler_add_def in_values_def)
  with init run ks show ?thesis by (simp add: SoCLocHandler_init_def)
qed

theorem csr_capacity_witness:
  "distinct (csr_names @ [''extra'']) \<and> length csr_names = 32 \<and>
   32 \<in> set supported_data_width_csr \<and> ''big'' \<in> set supported_ordering \<and>
   (\<exists>h0 h. SoCCSRHandler_init 32 14 32 0x800 ''big'' [] = Inr h0 \<and> n_locs h0 = 32 \<and>
           add_names csr_names h0 = (Returned, h) \<and> keys (locs h) = csr_names \<and>
           SoCLocHandler_add ''extra'' None False h = (Raised (SoCError NotEnoughLocations), h))"
  using csr_capacity[of csr_names "''extra''" 32 "''big''"]
  by (simp add: csr_names_def supported_data_width_csr_def supported_ordering_def)

text \<open>
  C10. \<^verbatim>\<open>SoCIRQHandler.add\<close> raises whenever the handler is not enabled, whatever the other
  arguments, and hands the handler back unchanged; once \<^verbatim>\<open>enable()\<close> has been called it is
  \<^verbatim>\<open>SoCLocHandler.add\<close>, and the handler stays enabled.
\<close>

theorem irq_add_gated:
  "(\<not> enabled h \<longrightarrow>
      SoCIRQHandler_add name n u h = (Raised (SoCError IRQNotSupported), h)) \<and>
   SoCIRQHandler_add name n u (SoCIRQHandler_enable h) =
      SoCLocHandler_add name n u (SoCIRQHandler_enable h) \<and>
   enabled (snd (SoCIRQHandler_add name n u (SoCIRQHandler_enable h)))"
  by (simp add: SoCIRQHandler_add_def SoCIRQHandler_enable_def SoCLocHandler_add_def
      split: option.split sum.split)

theorem irq_add_gated_witness:
  "SoCIRQHandler_init 32 [] = Inr irq_demo \<and> \<not> enabled irq_demo \<and>
   SoCIRQHandler_add ''uart'' None False irq_demo = (Raised (SoCError IRQNotSupported), irq_demo) \<and>
   SoCIRQHandler_add ''uart'' (Some 3) True irq_demo = (Raised (SoCError IRQNotSupported), irq_demo) \<and>
   SoCIRQHandler_add ''uart'' None False (SoCIRQHandler_enable irq_demo) =
     (Returned, \<lparr>locs = [(''uart'', 0)], n_locs = 32, enabled = True\<rparr>)"
  using irq_add_gated[of irq_demo "''uart''" None False]
    irq_add_gated[of irq_demo "''uart''" "Some 3" True]
  by (simp add: irq_demo_def SoCIRQHandler_init_def SoCIRQHandler_enable_def
      SoCLocHandler_add_def SoCLocHandler_alloc_def py_range_def in_values_def keys_def
      values_of_def upto_rec1)

section \<open>Facts about the bus handler\<close>

lemma bit_length_0 [simp]: "bit_length 0 = 0"
  by (simp add: bit_length.simps)

lemma bit_length_Suc_0 [simp]: "bit_length (Suc 0) = Suc 0"
  by (simp add: bit_length.simps[of "Suc 0"])

lemma bit_length_Bit0 [simp]: "bit_length (numeral (Num.Bit0 n)) = Suc (bit_length (numeral n))"
  by (simp add: bit_length.simps[of "numeral (Num.Bit0 n)"])

lemma bit_length_Bit1 [simp]: "bit_length (numeral (Num.Bit1 n)) = Suc (bit_length (numeral n))"
  by (simp add: bit_length.simps[of "numeral (Num.Bit1 n)"])

lemma alloc_while_result_aux:
  assumes "alloc_while regs sz cach limit org = Some y"
  shows "\<forall>c. y = Inr (Some c) \<longrightarrow>
     (\<exists>p. c = SoCRegion_init (Some p) sz ''rw'' cach False True \<and> p mod 2 ^ log2_ceil sz = 0 \<and>
        overlaps_allocated regs c = Inr False)"
  by (rule alloc_while.raw_induct[where P = "\<lambda>regs sz cach limit org y. \<forall>c. y = Inr (Some c) \<longrightarrow>
     (\<exists>p. c = SoCRegion_init (Some p) sz ''rw'' cach False True \<and> p mod 2 ^ log2_ceil sz = 0 \<and>
        overlaps_allocated regs c = Inr False)", OF _ assms])
    (auto split: if_splits sum.splits)

lemma alloc_while_result:
  "alloc_while regs sz cach limit org = Some (Inr (Some c)) \<Longrightarrow>
   \<exists>p. c = SoCRegion_init (Some p) sz ''rw'' cach False True \<and> p mod 2 ^ log2_ceil sz = 0 \<and>
       overlaps_allocated regs c = Inr False"
  using alloc_while_result_aux by blast




lemma regions_apart_sym: "regions_apart a b = regions_apart b a"
  by (auto simp: regions_apart_def split: option.splits)

lemma overlap_with_Cons:
  "overlap_with False (n0, r0) ((n1, r1) # rest) =
     (if regions_apart r0 r1 then overlap_with False (n0, r0) rest
      else if linker r0 \<or> linker r1 then overlap_with False (n0, r0) rest
      else if origin r0 = None \<or> origin r1 = None then Inl TypeError
      else Inr (Some (n0, n1)))"
proof (cases "linker r0 \<or> linker r1")
  case True
  then show ?thesis by (auto simp: regions_apart_def)
next
  case False
  show ?thesis
  proof (cases "origin r0")
    case None
    with False show ?thesis by (simp add: regions_apart_def)
  next
    case o0: (Some o0)
    show ?thesis
    proof (cases "origin r1")
      case None
      with False o0 show ?thesis by (simp add: regions_apart_def)
    next
      case (Some o1)
      with False o0 show ?thesis by (simp add: regions_apart_def)
    qed
  qed
qed

lemma regions_apart_linker: "linker r0 \<or> linker r1 \<Longrightarrow> regions_apart r0 r1"
  by (auto simp: regions_apart_def)

lemma overlap_with_None:
  "overlap_with False (n0, r0) rest = Inr None \<Longrightarrow> \<forall>x\<in>set rest. regions_apart r0 (snd x)"
proof (induction rest)
  case Nil
  then show ?case by simp
next
  case (Cons a rest)
  obtain n1 r1 where a: "a = (n1, r1)" by (cases a)
  from Cons.prems a have eq: "(if regions_apart r0 r1 then overlap_with False (n0, r0) rest
      else if linker r0 \<or> linker r1 then overlap_with False (n0, r0) rest
      else if origin r0 = None \<or> origin r1 = None then Inl TypeError
      else Inr (Some (n0, n1))) = Inr None"
    by (simp only: overlap_with_Cons)
  have ap: "regions_apart r0 r1"
  proof (rule ccontr)
    assume n: "\<not> regions_apart r0 r1"
    then have "\<not> (linker r0 \<or> linker r1)" using regions_apart_linker by blast
    with n eq show False by (simp split: if_splits)
  qed
  with eq have "overlap_with False (n0, r0) rest = Inr None" by simp
  from Cons.IH[OF this] ap a show ?case by simp
qed

lemma check_regions_overlap_None:
  "SoCBusHandler_check_regions_overlap regs False = Inr None \<Longrightarrow> all_apart regs"
  unfolding all_apart_def
proof (induction regs)
  case Nil
  then show ?case by simp
next
  case (Cons a regs)
  obtain n0 r0 where a: "a = (n0, r0)" by (cases a)
  from Cons.prems a have w: "overlap_with False (n0, r0) regs = Inr None"
    and rest: "SoCBusHandler_check_regions_overlap regs False = Inr None"
    by (auto split: sum.splits option.splits)
  from overlap_with_None[OF w] Cons.IH[OF rest] a show ?case by simp
qed

lemma overlaps_allocated_False:
  "overlaps_allocated regs c = Inr False \<Longrightarrow> \<forall>x\<in>set regs. regions_apart (snd x) c"
proof (induction regs)
  case Nil
  then show ?case by simp
next
  case (Cons a regs)
  obtain n r where a: "a = (n, r)" by (cases a)
  let ?two = "SoCBusHandler_check_regions_overlap [(''0'', r), (''1'', c)] False"
  from Cons.prems a have
    eq: "(case ?two of Inl e \<Rightarrow> Inl e | Inr (Some p) \<Rightarrow> Inr True
          | Inr None \<Rightarrow> overlaps_allocated regs c) = Inr False"
    by (simp only: overlaps_allocated.simps)
  have gen: "\<And>x y. (case x of Inl e \<Rightarrow> Inl e | Inr (Some p) \<Rightarrow> Inr True | Inr None \<Rightarrow> y) = Inr False
      \<Longrightarrow> x = (Inr None :: error + (string \<times> string) option) \<and> y = (Inr False :: error + bool)"
    by (auto split: sum.splits option.splits)
  from gen[OF eq] have two: "?two = Inr None" and rest: "overlaps_allocated regs c = Inr False"
    by blast+
  from check_regions_overlap_None[OF two] have "regions_apart r c"
    by (simp add: all_apart_def)
  with Cons.IH[OF rest] a show ?case by simp
qed

lemma all_apart_snoc:
  "all_apart (regs @ [(n, c)]) \<longleftrightarrow> all_apart regs \<and> (\<forall>x\<in>set regs. regions_apart (snd x) c)"
  by (simp add: all_apart_def sorted_wrt_append)

lemma all_apart_pair:
  "all_apart regs \<Longrightarrow> distinct (keys regs) \<Longrightarrow> (n0, r0) \<in> set regs \<Longrightarrow> (n1, r1) \<in> set regs \<Longrightarrow>
   n0 \<noteq> n1 \<Longrightarrow> regions_apart r0 r1"
  unfolding all_apart_def
proof (induction regs)
  case Nil
  then show ?case by simp
next
  case (Cons a regs)
  then show ?case
    using regions_apart_sym by (fastforce simp: keys_def)
qed

lemma alloc_search_result:
  "alloc_search regs sz cach srs = Some (Inr c) \<Longrightarrow>
   \<exists>p. c = SoCRegion_init (Some p) sz ''rw'' cach False True \<and> p mod 2 ^ log2_ceil sz = 0 \<and>
       overlaps_allocated regs c = Inr False"
proof (induction srs)
  case Nil
  then show ?case by simp
next
  case (Cons a srs)
  obtain n sr where a: "a = (n, sr)" by (cases a)
  from Cons.prems a obtain so where so: "origin sr = Some so"
    by (auto split: option.splits)
  show ?case
  proof (cases "alloc_while regs sz cach (so + size_pow2 sr) so")
    case None
    with Cons.prems a so show ?thesis by simp
  next
    case (Some res)
    show ?thesis
    proof (cases res)
      case (Inl e)
      with Some Cons.prems a so show ?thesis by simp
    next
      case (Inr found)
      show ?thesis
      proof (cases found)
        case None
        with Inr Some Cons.prems a so have "alloc_search regs sz cach srs = Some (Inr c)" by simp
        from Cons.IH[OF this] show ?thesis .
      next
        case (Some cand)
        with Inr \<open>alloc_while regs sz cach (so + size_pow2 sr) so = Some res\<close> Cons.prems a so
        have "alloc_while regs sz cach (so + size_pow2 sr) so = Some (Inr (Some c))" by simp
        from alloc_while_result[OF this] show ?thesis .
      qed
    qed
  qed
qed

lemma alloc_region_result:
  "SoCBusHandler_alloc_region name sz cach bus = Some (Inr c) \<Longrightarrow>
   \<exists>p. c = SoCRegion_init (Some p) sz ''rw'' cach False True \<and> p mod 2 ^ log2_ceil sz = 0 \<and>
       overlaps_allocated (regions bus) c = Inr False"
  unfolding SoCBusHandler_alloc_region_def Let_def by (rule alloc_search_result)

lemma add_region_inv:
  assumes "regions_inv (regions bus)"
    and "SoCBusHandler_add_region name obj bus = Some (Returned, bus')"
  shows "regions_inv (regions bus')"
proof -
  from assms(2) have fresh: "name \<notin> set (keys (regions bus))"
    by (auto simp: SoCBusHandler_add_region_def split: if_splits)
  from assms(2) have notio: "name \<notin> set (keys (io_regions bus))"
    by (auto simp: SoCBusHandler_add_region_def split: if_splits)
  show ?thesis
  proof (cases obj)
    case (IORegion region)
    with assms(2) fresh notio have "regions bus' = regions bus"
      by (auto simp: SoCBusHandler_add_region_def Let_def split: sum.splits option.splits)
    with assms(1) show ?thesis by simp
  next
    case OtherObject
    with assms(2) fresh notio show ?thesis by (simp add: SoCBusHandler_add_region_def)
  next
    case (Region region)
    show ?thesis
    proof (cases "origin region")
      case None
      with Region assms(2) fresh notio obtain c where
        al: "SoCBusHandler_alloc_region name (size_req region) (cached region) bus = Some (Inr c)"
        and r': "regions bus' = regions bus @ [(name, c)]"
        by (auto simp: SoCBusHandler_add_region_def dict_set_fresh split: sum.splits option.splits)
      from alloc_region_result[OF al] have "overlaps_allocated (regions bus) c = Inr False" by blast
      from overlaps_allocated_False[OF this] assms(1) fresh r' show ?thesis
        by (simp add: regions_inv_def all_apart_snoc keys_def)
    next
      case (Some org)
      with Region assms(2) fresh notio have
        r': "regions bus' = regions bus @ [(name, region)]"
        and ck: "SoCBusHandler_check_regions_overlap (regions bus @ [(name, region)]) False = Inr None"
        by (auto simp: SoCBusHandler_add_region_def dict_set_fresh Let_def
            split: sum.splits option.splits)
      from check_regions_overlap_None[OF ck] assms(1) fresh r' show ?thesis
        by (simp add: regions_inv_def keys_def)
    qed
  qed
qed

lemma run_ops_inv:
  "regions_inv (regions bus) \<Longrightarrow> run_ops ops bus = Some (Returned, bus') \<Longrightarrow>
   regions_inv (regions bus')"
proof (induction ops arbitrary: bus)
  case Nil
  then show ?case by simp
next
  case (Cons op ops)
  show ?case
  proof (cases op)
    case (AddRegion name obj)
    with Cons.prems(2) obtain bus1 where
      step: "SoCBusHandler_add_region name obj bus = Some (Returned, bus1)"
      and rest: "run_ops ops bus1 = Some (Returned, bus')"
      by (auto split: option.splits outcome.splits prod.splits)
    from Cons.IH[OF add_region_inv[OF Cons.prems(1) step] rest] show ?thesis .
  next
    case (AllocRegion name sz cach)
    with Cons.prems(2) have "run_ops ops bus = Some (Returned, bus')"
      by (auto split: option.splits sum.splits)
    from Cons.IH[OF Cons.prems(1) this] show ?thesis .
  next
    case (SetIORegionsCheck b)
    with Cons.prems(2) have "run_ops ops (bus\<lparr>io_regions_check := b\<rparr>) = Some (Returned, bus')"
      by simp
    from Cons.IH[OF _ this] Cons.prems(1) show ?thesis by simp
  qed
qed

section \<open>Claims about the bus handler\<close>

text \<open>
  C1. Start from a handler without regions and run any sequence of \<^verbatim>\<open>add_region\<close> and
  \<^verbatim>\<open>alloc_region\<close> calls (and assignments to \<^verbatim>\<open>io_regions_check\<close>) in which no call
  raises. Then any two entries of \<^verbatim>\<open>self.regions\<close> under different names, neither of them a
  linker region, have their origins set and the intervals \<open>[origin, origin + size_pow2)\<close>
  are disjoint.
\<close>

theorem regions_never_overlap:
  assumes "regions bus0 = []" and "run_ops ops bus0 = Some (Returned, bus)"
    and "(n0, r0) \<in> set (regions bus)" and "(n1, r1) \<in> set (regions bus)" and "n0 \<noteq> n1"
    and "\<not> linker r0" and "\<not> linker r1"
  shows "\<exists>o0 o1. origin r0 = Some o0 \<and> origin r1 = Some o1 \<and>
           {o0..<o0 + size_pow2 r0} \<inter> {o1..<o1 + size_pow2 r1} = {}"
proof -
  have "regions_inv (regions bus0)" using assms(1) by (simp add: regions_inv_def all_apart_def keys_def)
  from run_ops_inv[OF this assms(2)] have inv: "regions_inv (regions bus)" .
  then have "regions_apart r0 r1"
    using all_apart_pair assms(3,4,5) by (auto simp: regions_inv_def)
  with assms(6,7) obtain o0 o1 where "origin r0 = Some o0" "origin r1 = Some o1"
    and "o0 \<ge> o1 + size_pow2 r1 \<or> o1 \<ge> o0 + size_pow2 r0"
    by (auto simp: regions_apart_def split: option.splits)
  then show ?thesis by auto
qed

section \<open>Scenario A: a ROM at 0 and an allocated RAM\<close>

lemma init_fresh:
  "SoCBusHandler_init ''wishbone'' 32 32 (Some 1000000) False ''shared'' True [] = Some (Inr bus_fresh)"
  by (simp add: SoCBusHandler_init_def bus_fresh_def supported_standard_def
      supported_data_width_def supported_address_width_def)

lemma SoCRegion_init_sel [simp]:
  "origin (SoCRegion_init org sz md cach link dec) = org"
  "decode (SoCRegion_init org sz md cach link dec) = dec"
  "size_req (SoCRegion_init org sz md cach link dec) = sz"
  "size_pow2 (SoCRegion_init org sz md cach link dec) = 2 ^ log2_ceil sz"
  "mode (SoCRegion_init org sz md cach link dec) = md"
  "cached (SoCRegion_init org sz md cach link dec) = cach"
  "linker (SoCRegion_init org sz md cach link dec) = link"
  by (simp_all add: SoCRegion_init_def)

lemma log2_ceil_examples:
  "log2_ceil 0x1000 = 12" "log2_ceil 0x2000 = 13" "log2_ceil 0x10000 = 16"
  "log2_ceil 0xFFFFFFFF = 32"
  by (simp_all add: log2_ceil_def)

lemma add_rom:
  "SoCBusHandler_add_region ''rom'' (Region rom_region) bus_fresh =
     Some (Returned, bus_fresh\<lparr>regions := [(''rom'', rom_region)]\<rparr>)"
  by (simp add: SoCBusHandler_add_region_def bus_fresh_def rom_region_def keys_def
      io_regions_check_error_def SoCBusHandler_check_region_is_io_def)

lemma alloc_ram_second:
  "alloc_while [(''rom'', rom_region)] 0x10000 True 0x100000000 0x10000 =
     Some (Inr (Some ram_region))"
  by (subst alloc_while.simps) (simp add: log2_ceil_examples rom_region_def ram_region_def)

lemma alloc_ram_first:
  "alloc_while [(''rom'', rom_region)] 0x10000 True 0x100000000 0 = Some (Inr (Some ram_region))"
  by (subst alloc_while.simps) (simp add: log2_ceil_examples rom_region_def alloc_ram_second[unfolded rom_region_def])

lemma alloc_ram:
  "SoCBusHandler_alloc_region name 0x10000 True (bus_fresh\<lparr>regions := [(''rom'', rom_region)]\<rparr>) =
     Some (Inr ram_region)"
  by (simp add: SoCBusHandler_alloc_region_def bus_fresh_def log2_ceil_examples alloc_ram_first)

lemma add_ram:
  "SoCBusHandler_add_region ''ram'' (Region ram_request) (bus_fresh\<lparr>regions := [(''rom'', rom_region)]\<rparr>) =
     Some (Returned, bus_fresh\<lparr>regions := [(''rom'', rom_region), (''ram'', ram_region)]\<rparr>)"
  using alloc_ram[of "''ram''"]
  by (simp add: SoCBusHandler_add_region_def ram_request_def keys_def bus_fresh_def)

lemma run_scenario_a: "run_ops scenario_a bus_fresh = Some (Returned, bus_a)"
  by (simp add: scenario_a_def bus_a_def add_rom alloc_ram add_ram)

theorem regions_never_overlap_witness:
  "regions bus_fresh = [] \<and> run_ops scenario_a bus_fresh = Some (Returned, bus_a) \<and>
   (''rom'', rom_region) \<in> set (regions bus_a) \<and> (''ram'', ram_region) \<in> set (regions bus_a) \<and>
   ''rom'' \<noteq> ''ram'' \<and> \<not> linker rom_region \<and> \<not> linker ram_region \<and>
   (\<exists>o0 o1. origin rom_region = Some o0 \<and> origin ram_region = Some o1 \<and>
      {o0..<o0 + size_pow2 rom_region} \<inter> {o1..<o1 + size_pow2 ram_region} = {})"
proof -
  have a: "regions bus_fresh = []" by (simp add: bus_fresh_def)
  have b: "(''rom'', rom_region) \<in> set (regions bus_a)" by (simp add: bus_a_def)
  have c: "(''ram'', ram_region) \<in> set (regions bus_a)" by (simp add: bus_a_def)
  have d: "''rom'' \<noteq> ''ram''" by simp
  have e: "\<not> linker rom_region" by (simp add: rom_region_def)
  have f: "\<not> linker ram_region" by (simp add: ram_region_def)
  from regions_never_overlap[OF a run_scenario_a b c d e f] a run_scenario_a b c d e f
  show ?thesis by blast
qed

end
